theory Spec2Isabelle
  imports Main
begin

section \<open>Data model of \<open>Blockchain.py\<close>\<close>

text \<open>
  The ledger of \<open>src/Blockchain.py\<close> is a Python object with three attributes: the
  list \<open>chain\<close> of blocks, the list \<open>currentTransactions\<close> and the set \<open>nodes\<close>. A
  block is a dictionary with the five keys \<open>index\<close>, \<open>timestamp\<close>, \<open>transactions\<close>,
  \<open>proof\<close> and \<open>previous_hash\<close>; a transaction is a dictionary with the keys
  \<open>sender\<close>, \<open>recipient\<close> and \<open>amount\<close>. The types of the values are those of the
  docstrings (\<open><str>\<close>, \<open><int>\<close>).

  The exceptions that the modelled code can raise are values of \<open>error\<close>.
  \<open>IndexError\<close>: reading \<open>chain[0]\<close> or \<open>chain[-1]\<close> of an empty list.
  \<open>KeyError\<close>: \<open>set.remove\<close> of an element that is not in the set.
  \<open>ValueError\<close>: \<open>raise ValueError('Invalid URL')\<close>.
  \<open>RequestException\<close>: what \<open>requests.get\<close> raises when the peer cannot be reached.
\<close>

datatype error = IndexError | KeyError | ValueError | RequestException

text \<open>
  The value under \<open>previous_hash\<close> is the integer \<open>1\<close> in the genesis block
  (\<open>self.new_block(previous_hash=1, proof=100)\<close>) and a string (a hex digest) in every
  other block, so the field holds either of the two. \<open>truthy\<close> is Python's truth value,
  which the \<open>or\<close> of \<open>new_block\<close> tests.
\<close>

datatype pyval = PyInt int | PyStr string

fun truthy :: "pyval \<Rightarrow> bool" where
  "truthy (PyInt n) = (n \<noteq> 0)"
| "truthy (PyStr s) = (s \<noteq> [])"

record transaction =
  sender :: string
  recipient :: string
  amount :: int

text \<open>
  The timestamp is the float that \<open>time()\<close> returns; its type is left open (\<open>'t\<close>).
  The key \<open>proof\<close> is the field \<open>proof'\<close>.
\<close>

record 't block =
  index :: int
  timestamp :: 't
  transactions :: "transaction list"
  proof' :: int
  previous_hash :: pyval

record 't blockchain =
  chain :: "'t block list"
  currentTransactions :: "transaction list"
  nodes :: "string set"

text \<open>
  Every method returns its outcome (\<open>Inl\<close> the exception raised, \<open>Inr\<close> the value
  returned) together with the state of the object afterwards, since a Python method that
  raises keeps the mutations it made before.
\<close>

type_synonym ('a, 't) result = "(error + 'a) \<times> 't blockchain"

subsection \<open>Library functions\<close>

text \<open>
  \<open>hashlib.sha256(b).hexdigest()\<close> and \<open>json.dumps(block, sort_keys=True)\<close> are library
  functions. The model takes them as the two fields of a record \<open>lib\<close> that every
  operation that hashes receives: \<open>sha256_hexdigest\<close> maps the encoded string to the hex
  digest, \<open>json_dumps\<close> maps a block to its JSON text with sorted keys.
\<close>

record 't lib =
  sha256_hexdigest :: "string \<Rightarrow> string"
  json_dumps :: "'t block \<Rightarrow> string"

text \<open>
  \<open>urlparse\<close> is a parameter of the two registry operations; of its result the code reads
  \<open>netloc\<close> and \<open>path\<close>. The library function itself can raise (a \<open>ValueError\<close> on an
  unbalanced IPv6 bracket), hence the sum.
\<close>

record parsed_url =
  netloc :: string
  path :: string

type_synonym urlparse = "string \<Rightarrow> error + parsed_url"

text \<open>
  \<open>requests.get(url)\<close> raises or returns a response; of a response the code reads
  \<open>status_code\<close>, \<open>json()['length']\<close> and \<open>json()['chain']\<close>. The body has the shape
  that the route \<open>/chain\<close> gives it, an integer and a list of blocks; the two are
  independent fields, and nothing makes the integer the length of the list.
\<close>

datatype 't response =
  Response (status_code: int) (json_length: int) (json_chain: "'t block list")

type_synonym 't requests_get = "string \<Rightarrow> error + 't response"

text \<open>The f-string rendering \<open>f'{n}'\<close> of a Python int: its decimal digits, with a sign.\<close>

definition digit_char :: "nat \<Rightarrow> char" where
  "digit_char d = ''0123456789'' ! d"

function str_nat :: "nat \<Rightarrow> string" where
  "str_nat n = (if n < 10 then [digit_char n] else str_nat (n div 10) @ [digit_char (n mod 10)])"
  by pat_completeness auto
termination
  by (relation "measure (\<lambda>n. n)") auto

declare str_nat.simps [simp del]

definition str_int :: "int \<Rightarrow> string" where
  "str_int i = (if i < 0 then CHR ''-'' # str_nat (nat (- i)) else str_nat (nat i))"

section \<open>The class \<open>Blockchain\<close>\<close>

subsection \<open>\<open>hash\<close>, \<open>valid_proof\<close>, \<open>proof_of_work\<close>\<close>

definition hash :: "'t lib \<Rightarrow> 't block \<Rightarrow> string" where
  "hash L block =
     (let block_string = json_dumps L block
      in sha256_hexdigest L block_string)"

definition valid_proof :: "'t lib \<Rightarrow> int \<Rightarrow> int \<Rightarrow> string \<Rightarrow> bool" where
  "valid_proof L last_proof proof last_hash =
     (let guess = str_int last_proof @ str_int proof @ last_hash;
          guess_hash = sha256_hexdigest L guess
      in take 4 guess_hash = ''0000'')"

text \<open>
  The search loop of \<open>proof_of_work\<close> has no bound: where no proof exists it runs for
  ever, which is the value \<open>None\<close>.
\<close>

partial_function (option) proof_of_work_loop ::
  "'t lib \<Rightarrow> int \<Rightarrow> string \<Rightarrow> int \<Rightarrow> int option" where
  "proof_of_work_loop L last_proof last_hash proof =
     (if valid_proof L last_proof proof last_hash = False
      then proof_of_work_loop L last_proof last_hash (proof + 1)
      else Some proof)"

declare proof_of_work_loop.simps [code]

definition proof_of_work :: "'t lib \<Rightarrow> 't block \<Rightarrow> int option" where
  "proof_of_work L last_block =
     (let last_proof = proof' last_block;
          last_hash = hash L last_block
      in proof_of_work_loop L last_proof last_hash 0)"

subsection \<open>\<open>last_block\<close>, \<open>new_block\<close>, \<open>new_transaction\<close>, \<open>__init__\<close>\<close>

text \<open>\<open>self.chain[-1]\<close> raises \<open>IndexError\<close> on an empty list.\<close>

definition last_block :: "'t blockchain \<Rightarrow> error + 't block" where
  "last_block s = (case chain s of [] \<Rightarrow> Inl IndexError | _ # _ \<Rightarrow> Inr (last (chain s)))"

text \<open>
  \<open>now\<close> is the value that \<open>time()\<close> returns in this call. The dictionary is built
  before anything is assigned, so an \<open>IndexError\<close> of \<open>self.chain[-1]\<close> leaves the
  object as it was. The block takes the list object of the pool and the pool is rebound
  to a new empty list, so later appends to the pool do not reach the block.
\<close>

definition new_block :: "'t lib \<Rightarrow> 't \<Rightarrow> int \<Rightarrow> pyval \<Rightarrow> 't blockchain \<Rightarrow> ('t block, 't) result" where
  "new_block L now proof prev_hash s =
     (case (if truthy prev_hash then Inr prev_hash
            else (case last_block s of Inl e \<Rightarrow> Inl e | Inr b \<Rightarrow> Inr (PyStr (hash L b)))) of
        Inl e \<Rightarrow> (Inl e, s)
      | Inr ph \<Rightarrow>
          (let block = \<lparr>index = int (length (chain s)) + 1,
                        timestamp = now,
                        transactions = currentTransactions s,
                        proof' = proof,
                        previous_hash = ph\<rparr>
           in (Inr block, s\<lparr>currentTransactions := [], chain := chain s @ [block]\<rparr>)))"

text \<open>The append comes first: it stays when \<open>self.last_block\<close> raises.\<close>

definition new_transaction :: "string \<Rightarrow> string \<Rightarrow> int \<Rightarrow> 't blockchain \<Rightarrow> (int, 't) result" where
  "new_transaction sender' recipient' amount' s =
     (let s' = s\<lparr>currentTransactions :=
                   currentTransactions s @
                     [\<lparr>sender = sender', recipient = recipient', amount = amount'\<rparr>]\<rparr>
      in case last_block s' of
           Inl e \<Rightarrow> (Inl e, s')
         | Inr b \<Rightarrow> (Inr (index b + 1), s'))"

definition init :: "'t lib \<Rightarrow> 't \<Rightarrow> (unit, 't) result" where
  "init L now =
     (case new_block L now 100 (PyInt 1) \<lparr>chain = [], currentTransactions = [], nodes = {}\<rparr> of
        (Inl e, s) \<Rightarrow> (Inl e, s)
      | (Inr _, s) \<Rightarrow> (Inr (), s))"

subsection \<open>\<open>register_node\<close>, \<open>deregister_node\<close>\<close>

definition register_node :: "urlparse \<Rightarrow> string \<Rightarrow> 't blockchain \<Rightarrow> (unit, 't) result" where
  "register_node urlparse address s =
     (case urlparse address of
        Inl e \<Rightarrow> (Inl e, s)
      | Inr parsed_url \<Rightarrow>
          if netloc parsed_url \<noteq> [] then
            (Inr (), s\<lparr>nodes := insert (netloc parsed_url) (nodes s)\<rparr>)
          else if path parsed_url \<noteq> [] then
            (Inr (), s\<lparr>nodes := insert (path parsed_url) (nodes s)\<rparr>)
          else (Inl ValueError, s))"

text \<open>
  \<open>self.nodes.remove(x)\<close>: Python's \<open>set.remove\<close> raises \<open>KeyError\<close> when \<open>x\<close> is absent.
  The guard \<open>len(self.nodes) == 0\<close> of \<open>deregister_node\<close> is the test for the empty set.
\<close>

definition nodes_remove :: "string \<Rightarrow> 't blockchain \<Rightarrow> (unit, 't) result" where
  "nodes_remove x s =
     (if x \<in> nodes s then (Inr (), s\<lparr>nodes := nodes s - {x}\<rparr>) else (Inl KeyError, s))"

definition deregister_node :: "urlparse \<Rightarrow> string \<Rightarrow> 't blockchain \<Rightarrow> (unit, 't) result" where
  "deregister_node urlparse address s =
     (if nodes s = {} then (Inr (), s)
      else
        (case urlparse address of
           Inl e \<Rightarrow> (Inl e, s)
         | Inr parsed_url \<Rightarrow>
             if netloc parsed_url \<noteq> [] then nodes_remove (netloc parsed_url) s
             else if path parsed_url \<noteq> [] then nodes_remove (path parsed_url) s
             else (Inl ValueError, s)))"

subsection \<open>\<open>valid_chain\<close>\<close>

text \<open>
  The \<open>while\<close> loop of \<open>valid_chain\<close>, with its two variables \<open>last_block\<close> and
  \<open>current_index\<close>; the \<open>print\<close> calls are left out.
\<close>

function valid_chain_loop :: "'t lib \<Rightarrow> 't block list \<Rightarrow> 't block \<Rightarrow> nat \<Rightarrow> bool" where
  "valid_chain_loop L chain' last_block' current_index =
     (if current_index < length chain' then
        (let block = chain' ! current_index;
             last_block_hash = hash L last_block'
         in if previous_hash block \<noteq> PyStr last_block_hash then False
            else if \<not> valid_proof L (proof' last_block') (proof' block) last_block_hash then False
            else valid_chain_loop L chain' block (current_index + 1))
      else True)"
  by pat_completeness auto
termination
  by (relation "measure (\<lambda>(L, chain', last_block', current_index). length chain' - current_index)") auto

declare valid_chain_loop.simps [simp del]

text \<open>\<open>last_block = chain[0]\<close> comes before the loop and raises on an empty list.\<close>

definition valid_chain :: "'t lib \<Rightarrow> 't block list \<Rightarrow> error + bool" where
  "valid_chain L chain' =
     (case chain' of
        [] \<Rightarrow> Inl IndexError
      | last_block' # _ \<Rightarrow> Inr (valid_chain_loop L chain' last_block' 1))"

subsection \<open>\<open>resolve_conflicts\<close>\<close>

definition chain_url :: "string \<Rightarrow> string" where
  "chain_url node = ''http://'' @ node @ ''/chain''"

text \<open>
  The \<open>for\<close> loop over the peers, with its two variables \<open>max_length\<close> and
  \<open>new_chain\<close> (\<open>None\<close> until a peer's chain is taken). No exception is caught: what
  \<open>requests.get\<close> or \<open>valid_chain\<close> raises ends the loop. \<open>valid_chain\<close> is called only
  when \<open>length > max_length\<close> (the \<open>and\<close> is short-circuit).
\<close>

fun resolve_loop ::
  "'t lib \<Rightarrow> 't requests_get \<Rightarrow> string list \<Rightarrow> int \<times> 't block list option \<Rightarrow>
     error + (int \<times> 't block list option)" where
  "resolve_loop L get [] (max_length, new_chain) = Inr (max_length, new_chain)"
| "resolve_loop L get (node # rest) (max_length, new_chain) =
     (case get (chain_url node) of
        Inl e \<Rightarrow> Inl e
      | Inr response \<Rightarrow>
          if status_code response = 200 then
            (let length' = json_length response;
                 chain' = json_chain response
             in if length' > max_length then
                  (case valid_chain L chain' of
                     Inl e \<Rightarrow> Inl e
                   | Inr ok \<Rightarrow>
                       if ok then resolve_loop L get rest (length', Some chain')
                       else resolve_loop L get rest (max_length, new_chain))
                else resolve_loop L get rest (max_length, new_chain))
          else resolve_loop L get rest (max_length, new_chain))"

text \<open>
  \<open>neighbors\<close> lists \<open>self.nodes\<close> in the order in which the \<open>for\<close> loop visits the set,
  which Python leaves unspecified. \<open>if new_chain:\<close> is false for \<open>None\<close> and for an empty
  list.
\<close>

definition resolve_conflicts ::
  "'t lib \<Rightarrow> 't requests_get \<Rightarrow> string list \<Rightarrow> 't blockchain \<Rightarrow> (bool, 't) result" where
  "resolve_conflicts L get neighbors s =
     (case resolve_loop L get neighbors (int (length (chain s)), None) of
        Inl e \<Rightarrow> (Inl e, s)
      | Inr (max_length, new_chain) \<Rightarrow>
          (case new_chain of
             None \<Rightarrow> (Inr False, s)
           | Some [] \<Rightarrow> (Inr False, s)
           | Some (b # bs) \<Rightarrow> (Inr True, s\<lparr>chain := b # bs\<rparr>)))"

section \<open>The route \<open>/mine\<close>\<close>

text \<open>
  \<open>node_identifier\<close> is the module's \<open>str(uuid4()).replace('-', '')\<close>. The result is
  the new block, whose fields the JSON response repeats. \<open>None\<close>: the proof-of-work
  search does not return.
\<close>

definition mine :: "'t lib \<Rightarrow> string \<Rightarrow> 't \<Rightarrow> 't blockchain \<Rightarrow> ('t block, 't) result option" where
  "mine L node_identifier now s =
     (case last_block s of
        Inl e \<Rightarrow> Some (Inl e, s)
      | Inr last_block' \<Rightarrow>
          (case proof_of_work L last_block' of
             None \<Rightarrow> None
           | Some proof \<Rightarrow>
               (case new_transaction ''0'' node_identifier 1 s of
                  (Inl e, s1) \<Rightarrow> Some (Inl e, s1)
                | (Inr _, s1) \<Rightarrow>
                    (let prev_hash = hash L last_block'
                     in Some (new_block L now proof (PyStr prev_hash) s1)))))"

section \<open>Notions that the properties use\<close>

text \<open>
  One link of a chain, in the words of the specification: the current block names the
  hash of the previous one, and the proof-of-work predicate holds for the previous proof,
  the current proof and that hash.
\<close>

definition pair_ok :: "'t lib \<Rightarrow> 't block \<Rightarrow> 't block \<Rightarrow> bool" where
  "pair_ok L previous current =
     (previous_hash current = PyStr (hash L previous) \<and>
      valid_proof L (proof' previous) (proof' current) (hash L previous))"

text \<open>
  The specification's validator: walk the adjacent pairs in order, \<open>False\<close> at the first
  pair that fails, \<open>True\<close> when none is left.
\<close>

fun pairs_ok :: "'t lib \<Rightarrow> 't block list \<Rightarrow> bool" where
  "pairs_ok L (previous # current # rest) =
     (if pair_ok L previous current then pairs_ok L (current # rest) else False)"
| "pairs_ok L _ = True"

text \<open>
  The normalised form of an address, as both registry operations compute it: the network
  location if there is one, else the path if there is one; \<open>None\<close> for an address with
  neither (or one that \<open>urlparse\<close> itself rejects).
\<close>

definition normal_form :: "urlparse \<Rightarrow> string \<Rightarrow> string option" where
  "normal_form urlparse address =
     (case urlparse address of
        Inl e \<Rightarrow> None
      | Inr parsed_url \<Rightarrow>
          if netloc parsed_url \<noteq> [] then Some (netloc parsed_url)
          else if path parsed_url \<noteq> [] then Some (path parsed_url)
          else None)"

text \<open>A peer whose fetch returned a response with a status other than 200.\<close>

definition non_success :: "'t requests_get \<Rightarrow> string \<Rightarrow> bool" where
  "non_success get node =
     (case get (chain_url node) of Inl e \<Rightarrow> False | Inr response \<Rightarrow> status_code response \<noteq> 200)"

text \<open>
  A peer that qualifies against the length \<open>n\<close>: its fetch returned status 200, the
  length it reports is greater than \<open>n\<close>, and \<open>valid_chain\<close> returns \<open>True\<close> on the chain
  it reports.
\<close>

definition qualifies :: "'t lib \<Rightarrow> 't requests_get \<Rightarrow> int \<Rightarrow> string \<Rightarrow> bool" where
  "qualifies L get n node =
     (case get (chain_url node) of
        Inl e \<Rightarrow> False
      | Inr response \<Rightarrow>
          status_code response = 200 \<and> n < json_length response \<and>
          valid_chain L (json_chain response) = Inr True)"

text \<open>
  The ledgers that a node reaches from \<open>Blockchain()\<close> when the chain is touched by
  \<open>/mine\<close> alone; transactions may be submitted in between.
\<close>

inductive mined :: "'t lib \<Rightarrow> string \<Rightarrow> 't blockchain \<Rightarrow> bool" for L :: "'t lib" and node_identifier :: string where
  fresh: "init L now = (Inr (), s) \<Longrightarrow> mined L node_identifier s"
| mine: "mined L node_identifier s \<Longrightarrow> mine L node_identifier now s = Some (Inr b, s') \<Longrightarrow>
           mined L node_identifier s'"
| submit: "mined L node_identifier s \<Longrightarrow> new_transaction sender' recipient' amount' s = (Inr i, s') \<Longrightarrow>
           mined L node_identifier s'"

subsection \<open>Concrete instances\<close>

text \<open>
  The theorems below hold for every \<open>lib\<close>, \<open>urlparse\<close> and \<open>requests.get\<close>. Closed
  instances need particular ones. \<open>toy_lib\<close> stands in for the two hashing functions: its
  digest starts with \<open>0000\<close> exactly when its input has even length, and its JSON text
  of a block is the block's index and proof. \<open>urlparse_http\<close> stands in for
  \<open>urllib.parse.urlparse\<close> on the two address forms of the docstrings,
  \<open>http://192.168.0.10:5005\<close> (a network location) and \<open>192.168.0.10:5005\<close> (a
  path), and on the empty string (neither).
\<close>

definition toy_lib :: "int lib" where
  "toy_lib =
     \<lparr>sha256_hexdigest = (\<lambda>s. (if even (length s) then ''0000'' else ''ffff'') @ s),
      json_dumps = (\<lambda>b. str_int (index b) @ '','' @ str_int (proof' b))\<rparr>"

definition url_cut :: "string \<Rightarrow> string" where
  "url_cut u = takeWhile (\<lambda>c. c \<noteq> CHR ''?'' \<and> c \<noteq> CHR ''#'') u"

definition urlparse_http :: urlparse where
  "urlparse_http address =
     (if take 7 address = ''http://'' then
        (let rest = drop 7 address;
             loc = takeWhile (\<lambda>c. c \<noteq> CHR ''/'' \<and> c \<noteq> CHR ''?'' \<and> c \<noteq> CHR ''#'') rest
         in Inr \<lparr>netloc = loc, path = url_cut (drop (length loc) rest)\<rparr>)
      else Inr \<lparr>netloc = [], path = url_cut address\<rparr>)"

text \<open>
  The genesis block with timestamp 0, the block that \<open>/mine\<close> appends to it under
  \<open>toy_lib\<close> for the miner \<open>me\<close>, and the ledgers that hold them.
\<close>

definition genesis0 :: "int block" where
  "genesis0 = \<lparr>index = 1, timestamp = 0, transactions = [], proof' = 100, previous_hash = PyInt 1\<rparr>"

definition mined1 :: "int block" where
  "mined1 = \<lparr>index = 2, timestamp = 1,
              transactions = [\<lparr>sender = ''0'', recipient = ''me'', amount = 1\<rparr>],
              proof' = 10, previous_hash = PyStr ''ffff1,100''\<rparr>"

definition ledger :: "int block list \<Rightarrow> string set \<Rightarrow> int blockchain" where
  "ledger c ns = \<lparr>chain = c, currentTransactions = [], nodes = ns\<rparr>"

text \<open>
  A network for \<open>requests.get\<close>: each listed peer answers the request for its chain with
  the response given, and every other request raises.
\<close>

definition network :: "(string \<times> int response) list \<Rightarrow> int requests_get" where
  "network peers url =
     (case map_of (map (\<lambda>(node, response). (chain_url node, response)) peers) url of
        None \<Rightarrow> Inl RequestException
      | Some response \<Rightarrow> Inr response)"

section \<open>Lemmas about the operations\<close>

lemma init_eq:
  "init L now =
     (Inr (), \<lparr>chain = [\<lparr>index = 1, timestamp = now, transactions = [], proof' = 100,
                          previous_hash = PyInt 1\<rparr>],
              currentTransactions = [], nodes = {}\<rparr>)"
  by (simp add: init_def new_block_def Let_def)

lemma new_transaction_chain:
  "new_transaction a b c s = (r, s') \<Longrightarrow> chain s' = chain s"
  by (auto simp add: new_transaction_def Let_def split: sum.splits)

text \<open>The search returns the proof \<open>p\<close> when no smaller candidate from \<open>start\<close> on passes.\<close>

lemma proof_of_work_loop_finds:
  assumes "valid_proof L a p h" and "start \<le> p"
    and "\<forall>q. start \<le> q \<and> q < p \<longrightarrow> \<not> valid_proof L a q h"
  shows "proof_of_work_loop L a h start = Some p"
  using assms
proof (induction "nat (p - start)" arbitrary: start)
  case 0
  then have "start = p" by simp
  with 0 show ?case by (simp add: proof_of_work_loop.simps)
next
  case (Suc n)
  then have lt: "start < p" by linarith
  with Suc.prems have nv: "\<not> valid_proof L a start h" by simp
  have "proof_of_work_loop L a h (start + 1) = Some p"
  proof (rule Suc.hyps(1))
    show "n = nat (p - (start + 1))" using Suc.hyps(2) by linarith
    show "valid_proof L a p h" by fact
    show "start + 1 \<le> p" using lt by simp
    show "\<forall>q. start + 1 \<le> q \<and> q < p \<longrightarrow> \<not> valid_proof L a q h"
      using Suc.prems(3) by simp
  qed
  with nv show ?case by (subst proof_of_work_loop.simps) simp
qed

text \<open>What \<open>/mine\<close> does on an empty and on a non-empty chain.\<close>

lemma mine_empty: "chain s = [] \<Longrightarrow> mine L nid now s = Some (Inl IndexError, s)"
  by (simp add: mine_def last_block_def)

lemma mine_nonempty:
  assumes "chain s \<noteq> []"
  shows "mine L nid now s =
     (case proof_of_work L (last (chain s)) of
        None \<Rightarrow> None
      | Some p \<Rightarrow>
          Some (Inr \<lparr>index = int (length (chain s)) + 1, timestamp = now,
                     transactions = currentTransactions s @
                       [\<lparr>sender = ''0'', recipient = nid, amount = 1\<rparr>],
                     proof' = p, previous_hash = PyStr (hash L (last (chain s)))\<rparr>,
                s\<lparr>currentTransactions := [],
                  chain := chain s @
                    [\<lparr>index = int (length (chain s)) + 1, timestamp = now,
                      transactions = currentTransactions s @
                        [\<lparr>sender = ''0'', recipient = nid, amount = 1\<rparr>],
                      proof' = p, previous_hash = PyStr (hash L (last (chain s)))\<rparr>]\<rparr>))"
proof -
  from assms obtain x xs where c: "chain s = x # xs" by (cases "chain s") auto
  show ?thesis
    by (simp add: mine_def last_block_def new_transaction_def new_block_def Let_def c
        split: option.splits)
qed

text \<open>One turn of the loop of \<open>valid_chain\<close>, and the loop from any index on.\<close>

lemma valid_chain_loop_step:
  assumes "k < length c"
  shows "valid_chain_loop L c b k = (pair_ok L b (c ! k) \<and> valid_chain_loop L c (c ! k) (k + 1))"
  using assms by (subst valid_chain_loop.simps) (auto simp add: Let_def pair_ok_def)

lemma valid_chain_loop_done:
  assumes "length c \<le> k"
  shows "valid_chain_loop L c b k"
  using assms by (subst valid_chain_loop.simps) simp

lemma valid_chain_loop_pairs:
  assumes "0 < k" and "k \<le> length c"
  shows "valid_chain_loop L c (c ! (k - 1)) k =
           (\<forall>i. k \<le> i \<and> i < length c \<longrightarrow> pair_ok L (c ! (i - 1)) (c ! i))"
  using assms
proof (induction "length c - k" arbitrary: k)
  case 0
  then show ?case by (auto simp add: valid_chain_loop_done)
next
  case (Suc n)
  then have lt: "k < length c" by linarith
  have ih: "valid_chain_loop L c (c ! k) (k + 1) =
           (\<forall>i. k + 1 \<le> i \<and> i < length c \<longrightarrow> pair_ok L (c ! (i - 1)) (c ! i))"
    using Suc.hyps(1) [of "k + 1"] Suc.hyps(2) lt by simp
  have split: "(\<forall>i. k \<le> i \<and> i < length c \<longrightarrow> pair_ok L (c ! (i - 1)) (c ! i)) =
        (pair_ok L (c ! (k - 1)) (c ! k) \<and>
         (\<forall>i. k + 1 \<le> i \<and> i < length c \<longrightarrow> pair_ok L (c ! (i - 1)) (c ! i)))"
  proof (intro iffI conjI allI impI)
    assume a: "\<forall>i. k \<le> i \<and> i < length c \<longrightarrow> pair_ok L (c ! (i - 1)) (c ! i)"
    from a lt show "pair_ok L (c ! (k - 1)) (c ! k)" by simp
    fix i assume "k + 1 \<le> i \<and> i < length c"
    with a show "pair_ok L (c ! (i - 1)) (c ! i)" by simp
  next
    fix i
    assume a: "pair_ok L (c ! (k - 1)) (c ! k) \<and>
         (\<forall>i. k + 1 \<le> i \<and> i < length c \<longrightarrow> pair_ok L (c ! (i - 1)) (c ! i))"
      and b: "k \<le> i \<and> i < length c"
    show "pair_ok L (c ! (i - 1)) (c ! i)"
    proof (cases "i = k")
      case True
      with a show ?thesis by simp
    next
      case False
      with b have "k + 1 \<le> i \<and> i < length c" by simp
      with a show ?thesis by blast
    qed
  qed
  show ?case
    by (simp only: split valid_chain_loop_step [OF lt] ih)
qed

text \<open>Evaluations under \<open>toy_lib\<close>.\<close>

lemma toy_genesis_hash: "hash toy_lib genesis0 = ''ffff1,100''"
  by (simp add: hash_def toy_lib_def genesis0_def str_int_def str_nat.simps digit_char_def)

lemma toy_valid_proof:
  "valid_proof toy_lib a p h = even (length (str_int a @ str_int p @ h))"
  by (simp add: valid_proof_def toy_lib_def Let_def)

lemma toy_search: "proof_of_work_loop toy_lib 100 ''ffff1,100'' 0 = Some 10"
  by (simp add: proof_of_work_loop.simps toy_valid_proof str_int_def str_nat.simps digit_char_def)

lemma toy_mine_pool:
  "mine toy_lib ''me'' 1 \<lparr>chain = [genesis0], currentTransactions = pool, nodes = ns\<rparr> =
     Some (Inr (mined1\<lparr>transactions := pool @ [\<lparr>sender = ''0'', recipient = ''me'', amount = 1\<rparr>]\<rparr>),
           ledger [genesis0,
                   mined1\<lparr>transactions := pool @ [\<lparr>sender = ''0'', recipient = ''me'', amount = 1\<rparr>]\<rparr>] ns)"
proof -
  have p: "proof' genesis0 = 100" by (simp add: genesis0_def)
  show ?thesis
    by (simp add: mine_nonempty ledger_def proof_of_work_def Let_def toy_genesis_hash toy_search p)
       (simp add: genesis0_def mined1_def)
qed

lemma toy_mine:
  "mine toy_lib ''me'' 1 (ledger [genesis0] ns) = Some (Inr mined1, ledger [genesis0, mined1] ns)"
  using toy_mine_pool [of "[]" ns] by (simp add: ledger_def mined1_def)

text \<open>The validator of the specification against the loop of the code.\<close>

lemma pairs_ok_index:
  "pairs_ok L c = (\<forall>i. 0 < i \<and> i < length c \<longrightarrow> pair_ok L (c ! (i - 1)) (c ! i))"
proof (induction L c rule: pairs_ok.induct)
  case (1 L previous current rest)
  have "(\<forall>i. 0 < i \<and> i < length (previous # current # rest) \<longrightarrow>
            pair_ok L ((previous # current # rest) ! (i - 1)) ((previous # current # rest) ! i)) =
        (pair_ok L previous current \<and>
         (\<forall>i. 0 < i \<and> i < length (current # rest) \<longrightarrow>
            pair_ok L ((current # rest) ! (i - 1)) ((current # rest) ! i)))"
  proof (intro iffI conjI allI impI)
    assume a: "\<forall>i. 0 < i \<and> i < length (previous # current # rest) \<longrightarrow>
            pair_ok L ((previous # current # rest) ! (i - 1)) ((previous # current # rest) ! i)"
    from a [rule_format, of 1] show "pair_ok L previous current" by simp
    fix i assume i: "0 < i \<and> i < length (current # rest)"
    with a [rule_format, of "Suc i"]
    show "pair_ok L ((current # rest) ! (i - 1)) ((current # rest) ! i)"
      by (cases i) auto
  next
    fix i
    assume a: "pair_ok L previous current \<and>
         (\<forall>i. 0 < i \<and> i < length (current # rest) \<longrightarrow>
            pair_ok L ((current # rest) ! (i - 1)) ((current # rest) ! i))"
      and i: "0 < i \<and> i < length (previous # current # rest)"
    show "pair_ok L ((previous # current # rest) ! (i - 1)) ((previous # current # rest) ! i)"
    proof (cases "i = 1")
      case True
      with a show ?thesis by simp
    next
      case False
      with i obtain j where j: "i = Suc j" "0 < j" "j < length (current # rest)"
        by (cases i) auto
      with a have "pair_ok L ((current # rest) ! (j - 1)) ((current # rest) ! j)" by blast
      with j show ?thesis by simp
    qed
  qed
  with 1 show ?case by simp
qed simp_all

lemma valid_chain_nonempty:
  assumes "c \<noteq> []"
  shows "valid_chain L c =
           Inr (\<forall>i. 0 < i \<and> i < length c \<longrightarrow> pair_ok L (c ! (i - 1)) (c ! i))"
proof -
  from assms obtain x xs where c: "c = x # xs" by (cases c) auto
  have "valid_chain L c = Inr (valid_chain_loop L c (c ! (1 - 1)) 1)"
    by (simp add: valid_chain_def c)
  also have "valid_chain_loop L c (c ! (1 - 1)) 1 =
      (\<forall>i. 1 \<le> i \<and> i < length c \<longrightarrow> pair_ok L (c ! (i - 1)) (c ! i))"
    by (rule valid_chain_loop_pairs) (simp_all add: c)
  finally show ?thesis by (simp add: Suc_le_eq)
qed

text \<open>What a call of \<open>/mine\<close> that returns a block has done.\<close>

lemma mine_Inr:
  assumes "mine L nid now s = Some (Inr b, s')"
  shows "chain s \<noteq> [] \<and> chain s' = chain s @ [b] \<and> currentTransactions s' = [] \<and>
         nodes s' = nodes s \<and>
         index b = int (length (chain s)) + 1 \<and> timestamp b = now \<and>
         transactions b = currentTransactions s @ [\<lparr>sender = ''0'', recipient = nid, amount = 1\<rparr>] \<and>
         proof_of_work L (last (chain s)) = Some (proof' b) \<and>
         previous_hash b = PyStr (hash L (last (chain s)))"
proof (cases "chain s = []")
  case True
  with assms show ?thesis by (simp add: mine_empty)
next
  case False
  with assms show ?thesis
    by (auto simp add: mine_nonempty split: option.splits)
qed

lemma toy_mined: "mined toy_lib ''me'' (ledger [genesis0, mined1] {})"
proof -
  have "init toy_lib 0 = (Inr (), ledger [genesis0] {})"
    by (simp add: init_eq ledger_def genesis0_def)
  then have "mined toy_lib ''me'' (ledger [genesis0] {})" by (rule mined.fresh)
  then show ?thesis using toy_mine by (rule mined.mine)
qed

text \<open>The two registry operations in terms of the normalised address.\<close>

lemma register_node_normal_form:
  "register_node urlparse address s =
     (case normal_form urlparse address of
        Some n \<Rightarrow> (Inr (), s\<lparr>nodes := insert n (nodes s)\<rparr>)
      | None \<Rightarrow> (case urlparse address of Inl e \<Rightarrow> (Inl e, s) | Inr p \<Rightarrow> (Inl ValueError, s)))"
  by (simp add: register_node_def normal_form_def split: sum.splits)

lemma deregister_node_normal_form:
  "nodes s \<noteq> {} \<Longrightarrow>
   deregister_node urlparse address s =
     (case normal_form urlparse address of
        Some n \<Rightarrow> nodes_remove n s
      | None \<Rightarrow> (case urlparse address of Inl e \<Rightarrow> (Inl e, s) | Inr p \<Rightarrow> (Inl ValueError, s)))"
  by (simp add: deregister_node_def normal_form_def split: sum.splits)

text \<open>The loop of \<open>resolve_conflicts\<close>: a peer skipped, a peer that raises, the result.\<close>

lemma valid_chain_True_nonempty: "valid_chain L c = Inr True \<Longrightarrow> c \<noteq> []"
  by (auto simp add: valid_chain_def)

lemma resolve_loop_skip:
  "non_success get node \<Longrightarrow>
   resolve_loop L get (node # rest) acc = resolve_loop L get rest acc"
  by (cases acc) (auto simp add: non_success_def split: sum.splits)

lemma resolve_loop_raise:
  "get (chain_url node) = Inl e \<Longrightarrow> resolve_loop L get (node # rest) acc = Inl e"
  by (cases acc) simp

lemma resolve_loop_filter:
  "resolve_loop L get (filter (\<lambda>n. \<not> non_success get n) ns) acc = resolve_loop L get ns acc"
proof (induction ns arbitrary: acc)
  case Nil
  show ?case by simp
next
  case (Cons node rest)
  show ?case
  proof (cases "non_success get node")
    case True
    then show ?thesis by (simp add: resolve_loop_skip Cons.IH)
  next
    case False
    obtain m nc where acc: "acc = (m, nc)" by (cases acc)
    from False show ?thesis
      by (simp add: acc Cons.IH Let_def split: sum.splits)
  qed
qed

lemma resolve_loop_unreachable:
  "node \<in> set ns \<Longrightarrow> get (chain_url node) = Inl e \<Longrightarrow> \<exists>e'. resolve_loop L get ns acc = Inl e'"
proof (induction ns arbitrary: acc)
  case Nil
  then show ?case by simp
next
  case (Cons a rest)
  obtain m nc where acc: "acc = (m, nc)" by (cases acc)
  show ?case
  proof (cases "a = node")
    case True
    with Cons.prems show ?thesis by (simp add: resolve_loop_raise)
  next
    case False
    with Cons.prems have "node \<in> set rest" by simp
    from Cons.IH [OF this Cons.prems(2)] show ?thesis
      by (auto simp add: acc Let_def split: sum.splits)
  qed
qed

lemma resolve_loop_Inr:
  assumes "resolve_loop L get ns (m, nc) = Inr (m', nc')"
  shows "(m' = m \<and> nc' = nc \<and> (\<forall>node\<in>set ns. \<not> qualifies L get m node)) \<or>
         (m < m' \<and>
          (\<exists>node\<in>set ns. \<exists>r. get (chain_url node) = Inr r \<and> status_code r = 200 \<and>
              json_length r = m' \<and> valid_chain L (json_chain r) = Inr True \<and>
              nc' = Some (json_chain r)))"
  using assms
proof (induction ns arbitrary: m nc)
  case Nil
  then show ?case by simp
next
  case (Cons node rest)
  from Cons.prems obtain r where r: "get (chain_url node) = Inr r"
    by (cases "get (chain_url node)") auto
  show ?case
  proof (cases "qualifies L get m node")
    case True
    with r have q: "status_code r = 200" "m < json_length r" "valid_chain L (json_chain r) = Inr True"
      by (simp_all add: qualifies_def)
    with Cons.prems r
    have "resolve_loop L get rest (json_length r, Some (json_chain r)) = Inr (m', nc')"
      by (simp add: Let_def)
    from Cons.IH [OF this] show ?thesis
    proof
      assume "m' = json_length r \<and> nc' = Some (json_chain r) \<and>
              (\<forall>node\<in>set rest. \<not> qualifies L get (json_length r) node)"
      with q r show ?thesis by auto
    next
      assume "json_length r < m' \<and>
          (\<exists>node\<in>set rest. \<exists>r. get (chain_url node) = Inr r \<and> status_code r = 200 \<and>
              json_length r = m' \<and> valid_chain L (json_chain r) = Inr True \<and>
              nc' = Some (json_chain r))"
      with q show ?thesis by auto
    qed
  next
    case False
    with Cons.prems r have "resolve_loop L get rest (m, nc) = Inr (m', nc')"
      by (auto simp add: qualifies_def Let_def split: if_splits sum.splits)
    from Cons.IH [OF this] False show ?thesis by auto
  qed
qed

lemma toy_valid_chain: "valid_chain toy_lib [genesis0, mined1] = Inr True"
proof -
  have "pair_ok toy_lib genesis0 mined1"
    by (simp add: pair_ok_def toy_genesis_hash toy_valid_proof)
       (simp add: genesis0_def mined1_def str_int_def str_nat.simps digit_char_def)
  then show ?thesis
    by (simp add: valid_chain_nonempty pairs_ok_index [symmetric])
qed

lemma valid_chain_single: "valid_chain L [b] = Inr True"
  by (simp add: valid_chain_nonempty)

lemma qualifies_iff:
  "qualifies L get n node =
     (\<exists>r. get (chain_url node) = Inr r \<and> status_code r = 200 \<and> n < json_length r \<and>
          valid_chain L (json_chain r) = Inr True)"
  by (cases "get (chain_url node)") (auto simp add: qualifies_def)

section \<open>The properties\<close>

text \<open>
  C8. A freshly initialised ledger: \<open>Blockchain()\<close> returns without an exception, the
  chain has length exactly 1, and its single block, the genesis block, has index 1, proof
  100 and the sentinel \<open>1\<close> as \<open>previous_hash\<close>.
\<close>

theorem genesis_fresh_ledger:
  "fst (init L now) = Inr () \<and>
   length (chain (snd (init L now))) = 1 \<and>
   index (chain (snd (init L now)) ! 0) = 1 \<and>
   proof' (chain (snd (init L now)) ! 0) = 100 \<and>
   previous_hash (chain (snd (init L now)) ! 0) = PyInt 1"
  by (simp add: init_eq)

text \<open>
  C5. For every previous proof \<open>a\<close> and previous hash \<open>h\<close> for which some non-negative
  proof \<open>p0\<close> passes, the search of \<open>proof_of_work\<close> returns, and what it returns is the
  smallest non-negative integer \<open>p\<close> for which \<open>valid_proof a p h\<close> holds; this is also
  the result of \<open>proof_of_work\<close> on every block with proof \<open>a\<close> and hash \<open>h\<close>. The
  predicate \<open>valid_proof x y z\<close> concatenates the decimal renderings of \<open>x\<close> and \<open>y\<close> with
  the string \<open>z\<close>, hashes the result, and holds exactly when the first four characters
  of the hex digest are \<open>0000\<close>.
\<close>

theorem proof_of_work_smallest:
  assumes "0 \<le> p0" and "valid_proof L a p0 h"
  shows "(\<exists>p. proof_of_work_loop L a h 0 = Some p \<and> 0 \<le> p \<and> p \<le> p0 \<and>
              valid_proof L a p h \<and>
              (\<forall>q. 0 \<le> q \<and> q < p \<longrightarrow> \<not> valid_proof L a q h) \<and>
              (\<forall>b. proof' b = a \<and> hash L b = h \<longrightarrow> proof_of_work L b = Some p)) \<and>
         (\<forall>x y z. valid_proof L x y z =
              (take 4 (sha256_hexdigest L (str_int x @ str_int y @ z)) = ''0000''))"
proof (intro conjI allI)
  define P where "P n = valid_proof L a (int n) h" for n
  define m where "m = (LEAST n. P n)"
  have p0: "P (nat p0)" using assms by (simp add: P_def)
  have Pm: "P m" unfolding m_def using p0 by (rule LeastI)
  have le: "m \<le> nat p0" unfolding m_def using p0 by (rule Least_le)
  have least: "\<not> P k" if "k < m" for k using that unfolding m_def by (rule not_less_Least)
  have v: "valid_proof L a (int m) h" using Pm by (simp add: P_def)
  have mn: "\<forall>q. 0 \<le> q \<and> q < int m \<longrightarrow> \<not> valid_proof L a q h"
  proof (intro allI impI)
    fix q :: int assume q: "0 \<le> q \<and> q < int m"
    then have "nat q < m" by linarith
    from least [OF this] q show "\<not> valid_proof L a q h" by (simp add: P_def)
  qed
  have loop: "proof_of_work_loop L a h 0 = Some (int m)"
    by (rule proof_of_work_loop_finds [OF v]) (use mn in auto)
  have "\<forall>b. proof' b = a \<and> hash L b = h \<longrightarrow> proof_of_work L b = Some (int m)"
    using loop by (auto simp add: proof_of_work_def Let_def)
  with loop v mn le assms(1)
  show "\<exists>p. proof_of_work_loop L a h 0 = Some p \<and> 0 \<le> p \<and> p \<le> p0 \<and>
              valid_proof L a p h \<and>
              (\<forall>q. 0 \<le> q \<and> q < p \<longrightarrow> \<not> valid_proof L a q h) \<and>
              (\<forall>b. proof' b = a \<and> hash L b = h \<longrightarrow> proof_of_work L b = Some p)"
    by (intro exI [of _ "int m"]) auto
next
  fix x y z
  show "valid_proof L x y z =
          (take 4 (sha256_hexdigest L (str_int x @ str_int y @ z)) = ''0000'')"
    by (simp add: valid_proof_def Let_def)
qed

theorem proof_of_work_smallest_witness:
  "(0::int) \<le> 10 \<and> valid_proof toy_lib 100 10 ''ffff1,100'' \<and>
   proof_of_work_loop toy_lib 100 ''ffff1,100'' 0 = Some 10 \<and>
   (\<exists>p. proof_of_work_loop toy_lib 100 ''ffff1,100'' 0 = Some p \<and> 0 \<le> p \<and> p \<le> 10 \<and>
        valid_proof toy_lib 100 p ''ffff1,100'' \<and>
        (\<forall>q. 0 \<le> q \<and> q < p \<longrightarrow> \<not> valid_proof toy_lib 100 q ''ffff1,100'') \<and>
        (\<forall>b :: int block. proof' b = 100 \<and> hash toy_lib b = ''ffff1,100'' \<longrightarrow>
             proof_of_work toy_lib b = Some p))"
proof -
  have h1: "(0::int) \<le> 10" by simp
  have h2: "valid_proof toy_lib 100 10 ''ffff1,100''"
    by (simp add: toy_valid_proof str_int_def str_nat.simps digit_char_def)
  from proof_of_work_smallest [OF h1 h2] h1 h2 toy_search show ?thesis
    by blast
qed

text \<open>
  C6. For every chain of length at least 1, \<open>valid_chain\<close> returns what the walk over the
  adjacent pairs (previous, current) in order returns: for each pair it checks that
  \<open>previous_hash\<close> of the current block equals the hash of the previous block and that
  \<open>valid_proof\<close> holds for the previous proof, the current proof and that hash. The
  result is \<open>True\<close> exactly when every pair passes; at a failing pair the result is
  \<open>False\<close> whatever blocks follow it; a chain of a single block gives \<open>True\<close>.
\<close>

theorem valid_chain_walks_pairs:
  assumes "c \<noteq> []"
  shows "valid_chain L c = Inr (pairs_ok L c) \<and>
         valid_chain L c =
           Inr (\<forall>i. 0 < i \<and> i < length c \<longrightarrow>
                  previous_hash (c ! i) = PyStr (hash L (c ! (i - 1))) \<and>
                  valid_proof L (proof' (c ! (i - 1))) (proof' (c ! i)) (hash L (c ! (i - 1)))) \<and>
         (\<forall>k. 0 < k \<and> k < length c \<and> \<not> pair_ok L (c ! (k - 1)) (c ! k) \<longrightarrow>
              (\<forall>rest. valid_chain L (take (Suc k) c @ rest) = Inr False)) \<and>
         (length c = 1 \<longrightarrow> valid_chain L c = Inr True)"
proof (intro conjI allI impI)
  show "valid_chain L c = Inr (pairs_ok L c)"
    by (simp add: valid_chain_nonempty [OF assms] pairs_ok_index)
  show "valid_chain L c =
           Inr (\<forall>i. 0 < i \<and> i < length c \<longrightarrow>
                  previous_hash (c ! i) = PyStr (hash L (c ! (i - 1))) \<and>
                  valid_proof L (proof' (c ! (i - 1))) (proof' (c ! i)) (hash L (c ! (i - 1))))"
    by (simp add: valid_chain_nonempty [OF assms] pair_ok_def)
  show "valid_chain L c = Inr True" if "length c = 1"
    using that by (simp add: valid_chain_nonempty [OF assms])
next
  fix k rest
  assume k: "0 < k \<and> k < length c \<and> \<not> pair_ok L (c ! (k - 1)) (c ! k)"
  let ?d = "take (Suc k) c @ rest"
  have ne: "?d \<noteq> []" using assms by (cases c) auto
  have "k < length ?d" using k by simp
  moreover have "?d ! k = c ! k" "?d ! (k - 1) = c ! (k - 1)"
    using k by (simp_all add: nth_append)
  ultimately have "\<not> (\<forall>i. 0 < i \<and> i < length ?d \<longrightarrow> pair_ok L (?d ! (i - 1)) (?d ! i))"
    using k by metis
  then show "valid_chain L ?d = Inr False"
    by (simp add: valid_chain_nonempty [OF ne])
qed

theorem valid_chain_walks_pairs_witness:
  "[genesis0, mined1] \<noteq> [] \<and>
   valid_chain toy_lib [genesis0, mined1] = Inr (pairs_ok toy_lib [genesis0, mined1]) \<and>
   valid_chain toy_lib [genesis0, mined1] = Inr True \<and>
   valid_chain toy_lib [genesis0, mined1\<lparr>proof' := 3\<rparr>, mined1] = Inr False"
proof -
  have ne: "[genesis0, mined1] \<noteq> []" by simp
  have ok: "pairs_ok toy_lib [genesis0, mined1]"
    by (simp add: pair_ok_def toy_genesis_hash toy_valid_proof)
       (simp add: genesis0_def mined1_def str_int_def str_nat.simps digit_char_def)
  have ne': "[genesis0, mined1\<lparr>proof' := 3\<rparr>, mined1] \<noteq> []" by simp
  have bad: "\<not> pairs_ok toy_lib [genesis0, mined1\<lparr>proof' := 3\<rparr>, mined1]"
    by (simp add: pair_ok_def toy_genesis_hash toy_valid_proof)
       (simp add: genesis0_def mined1_def str_int_def str_nat.simps digit_char_def)
  from valid_chain_walks_pairs [OF ne, of toy_lib] valid_chain_walks_pairs [OF ne', of toy_lib] ok bad
  show ?thesis by simp
qed

text \<open>
  C10. \<open>valid_chain\<close> reads \<open>chain[0]\<close> before any test of the length: it raises
  \<open>IndexError\<close> on the empty chain, and on no other chain. In \<open>resolve_conflicts\<close>, a
  peer that answers with status 200, a reported length above \<open>max_length\<close> and an empty
  block list makes the loop, and so the whole resolution, end with that \<open>IndexError\<close>: the
  candidate is neither rejected as invalid nor skipped.
\<close>

theorem valid_chain_empty_raises:
  "valid_chain L [] = Inl IndexError \<and>
   (valid_chain L c = Inl IndexError) = (c = []) \<and>
   (get (chain_url node) = Inr (Response 200 n []) \<and> max_length < n \<longrightarrow>
      resolve_loop L get (node # rest) (max_length, new_chain) = Inl IndexError) \<and>
   (get (chain_url node) = Inr (Response 200 n []) \<and> int (length (chain s)) < n \<longrightarrow>
      resolve_conflicts L get (node # rest) s = (Inl IndexError, s))"
  by (auto simp add: valid_chain_def resolve_conflicts_def split: list.splits)

theorem valid_chain_empty_raises_witness:
  "valid_chain toy_lib [] = Inl IndexError \<and>
   resolve_loop toy_lib
     (\<lambda>url. if url = ''http://192.168.0.10:5005/chain'' then Inr (Response 200 2 []) else Inl RequestException)
     [''192.168.0.10:5005''] (1, None) = Inl IndexError \<and>
   resolve_conflicts toy_lib
     (\<lambda>url. if url = ''http://192.168.0.10:5005/chain'' then Inr (Response 200 2 []) else Inl RequestException)
     [''192.168.0.10:5005''] (ledger [genesis0] {''192.168.0.10:5005''}) =
     (Inl IndexError, ledger [genesis0] {''192.168.0.10:5005''})"
  using valid_chain_empty_raises [of toy_lib "[]"
     "\<lambda>url. if url = ''http://192.168.0.10:5005/chain'' then Inr (Response 200 2 []) else Inl RequestException"
     "''192.168.0.10:5005''" 2 1 "[]" None "ledger [genesis0] {''192.168.0.10:5005''}"]
  by (simp add: chain_url_def ledger_def)

text \<open>
  C1. In every ledger reached from a freshly initialised one with the chain touched by
  \<open>/mine\<close> alone, every block after the first names the hash of its predecessor: for
  every index \<open>i > 0\<close> of the chain, \<open>previous_hash\<close> of block \<open>i\<close> is the string
  \<open>hash\<close> of block \<open>i - 1\<close>, the digest of its JSON text.
\<close>

theorem mined_chain_linked:
  assumes "mined L node_identifier s" and "0 < i" and "i < length (chain s)"
  shows "previous_hash (chain s ! i) = PyStr (hash L (chain s ! (i - 1)))"
  using assms
proof (induction arbitrary: i rule: mined.induct)
  case (fresh now s)
  then have "chain s = [\<lparr>index = 1, timestamp = now, transactions = [], proof' = 100,
                          previous_hash = PyInt 1\<rparr>]"
    by (auto simp add: init_eq)
  with fresh.prems show ?case by simp
next
  case (mine s now b s')
  from mine_Inr [OF mine.hyps(2)]
  have ne: "chain s \<noteq> []" and c: "chain s' = chain s @ [b]"
    and ph: "previous_hash b = PyStr (hash L (last (chain s)))"
    by simp_all
  show ?case
  proof (cases "i < length (chain s)")
    case True
    then have "chain s' ! i = chain s ! i" "chain s' ! (i - 1) = chain s ! (i - 1)"
      by (simp_all add: c nth_append)
    with mine.IH [OF mine.prems(1) True] show ?thesis by simp
  next
    case False
    with mine.prems c have i: "i = length (chain s)" by simp
    have "chain s' ! i = b" by (simp add: c i)
    moreover have "chain s' ! (i - 1) = last (chain s)"
      using ne by (simp add: c i nth_append last_conv_nth)
    ultimately show ?thesis using ph by simp
  qed
next
  case (submit s sender' recipient' amount' j s')
  from new_transaction_chain [OF submit.hyps(2)] submit.IH [of i] submit.prems
  show ?case by simp
qed

theorem mined_chain_linked_witness:
  "mined toy_lib ''me'' (ledger [genesis0, mined1] {}) \<and>
   (0::nat) < 1 \<and> 1 < length (chain (ledger [genesis0, mined1] {})) \<and>
   previous_hash (chain (ledger [genesis0, mined1] {}) ! 1) =
     PyStr (hash toy_lib (chain (ledger [genesis0, mined1] {}) ! (1 - 1)))"
proof -
  have l: "1 < length (chain (ledger [genesis0, mined1] {}))" by (simp add: ledger_def)
  from mined_chain_linked [OF toy_mined _ l] toy_mined l show ?thesis by simp
qed

text \<open>
  C7. For every pool, when \<open>/mine\<close> returns a block, the pool is empty afterwards, the
  block is the one appended to the chain, and its transaction list is the pool as it
  stood when the block was created: the pool before the call, in insertion order,
  followed by the reward transaction that \<open>/mine\<close> appends just before. On a non-empty
  chain \<open>/mine\<close> does return a block whenever some non-negative proof passes. In
  particular, on a fresh ledger \<open>new_transaction("alice", "bob", 5)\<close> returns 2, and a
  following \<open>/mine\<close> that returns produces block 2 with exactly the transaction of alice
  followed by the reward \<open>{sender: "0", recipient: node_identifier, amount: 1}\<close>.
\<close>

theorem mine_drains_pool:
  "(mine L node_identifier now s = Some (Inr b, s') \<longrightarrow>
      currentTransactions s' = [] \<and>
      chain s' = chain s @ [b] \<and>
      transactions b =
        currentTransactions s @ [\<lparr>sender = ''0'', recipient = node_identifier, amount = 1\<rparr>]) \<and>
   (chain s \<noteq> [] \<and> 0 \<le> p0 \<and>
    valid_proof L (proof' (last (chain s))) p0 (hash L (last (chain s))) \<longrightarrow>
      (\<exists>b s'. mine L node_identifier now s = Some (Inr b, s'))) \<and>
   new_transaction ''alice'' ''bob'' 5 (snd (init L t0)) =
     (Inr 2, (snd (init L t0))\<lparr>currentTransactions :=
                [\<lparr>sender = ''alice'', recipient = ''bob'', amount = 5\<rparr>]\<rparr>) \<and>
   (mine L node_identifier now (snd (new_transaction ''alice'' ''bob'' 5 (snd (init L t0)))) =
      Some (Inr b2, s2) \<longrightarrow>
      index b2 = 2 \<and> length (chain s2) = 2 \<and> chain s2 ! 1 = b2 \<and> currentTransactions s2 = [] \<and>
      transactions b2 =
        [\<lparr>sender = ''alice'', recipient = ''bob'', amount = 5\<rparr>,
         \<lparr>sender = ''0'', recipient = node_identifier, amount = 1\<rparr>])"
proof (intro conjI impI)
  assume "mine L node_identifier now s = Some (Inr b, s')"
  from mine_Inr [OF this]
  show "currentTransactions s' = []" "chain s' = chain s @ [b]"
    "transactions b =
        currentTransactions s @ [\<lparr>sender = ''0'', recipient = node_identifier, amount = 1\<rparr>]"
    by simp_all
next
  assume a: "chain s \<noteq> [] \<and> 0 \<le> p0 \<and>
    valid_proof L (proof' (last (chain s))) p0 (hash L (last (chain s)))"
  define P where "P n = valid_proof L (proof' (last (chain s))) (int n) (hash L (last (chain s)))" for n
  define m where "m = (LEAST n. P n)"
  have p0: "P (nat p0)" using a by (simp add: P_def)
  have Pm: "P m" unfolding m_def using p0 by (rule LeastI)
  have least: "\<not> P k" if "k < m" for k using that unfolding m_def by (rule not_less_Least)
  have "proof_of_work_loop L (proof' (last (chain s))) (hash L (last (chain s))) 0 = Some (int m)"
  proof (rule proof_of_work_loop_finds)
    show "valid_proof L (proof' (last (chain s))) (int m) (hash L (last (chain s)))"
      using Pm by (simp add: P_def)
    show "0 \<le> int m" by simp
    show "\<forall>q. 0 \<le> q \<and> q < int m \<longrightarrow>
            \<not> valid_proof L (proof' (last (chain s))) q (hash L (last (chain s)))"
    proof (intro allI impI)
      fix q :: int assume q: "0 \<le> q \<and> q < int m"
      then have "nat q < m" by linarith
      from least [OF this] q
      show "\<not> valid_proof L (proof' (last (chain s))) q (hash L (last (chain s)))"
        by (simp add: P_def)
    qed
  qed
  then have "proof_of_work L (last (chain s)) = Some (int m)"
    by (simp add: proof_of_work_def Let_def)
  with a show "\<exists>b s'. mine L node_identifier now s = Some (Inr b, s')"
    by (simp add: mine_nonempty)
next
  show "new_transaction ''alice'' ''bob'' 5 (snd (init L t0)) =
     (Inr 2, (snd (init L t0))\<lparr>currentTransactions :=
                [\<lparr>sender = ''alice'', recipient = ''bob'', amount = 5\<rparr>]\<rparr>)"
    by (simp add: init_eq new_transaction_def last_block_def Let_def)
next
  assume "mine L node_identifier now (snd (new_transaction ''alice'' ''bob'' 5 (snd (init L t0)))) =
      Some (Inr b2, s2)"
  from mine_Inr [OF this]
  show "index b2 = 2" "length (chain s2) = 2" "chain s2 ! 1 = b2" "currentTransactions s2 = []"
    "transactions b2 =
        [\<lparr>sender = ''alice'', recipient = ''bob'', amount = 5\<rparr>,
         \<lparr>sender = ''0'', recipient = node_identifier, amount = 1\<rparr>]"
    by (simp_all add: init_eq new_transaction_def last_block_def Let_def)
qed

theorem mine_drains_pool_witness:
  "new_transaction ''alice'' ''bob'' 5 (snd (init toy_lib 0)) =
     (Inr 2, \<lparr>chain = [genesis0],
              currentTransactions = [\<lparr>sender = ''alice'', recipient = ''bob'', amount = 5\<rparr>],
              nodes = {}\<rparr>) \<and>
   mine toy_lib ''me'' 1 (snd (new_transaction ''alice'' ''bob'' 5 (snd (init toy_lib 0)))) =
     Some (Inr (mined1\<lparr>transactions :=
                  [\<lparr>sender = ''alice'', recipient = ''bob'', amount = 5\<rparr>,
                   \<lparr>sender = ''0'', recipient = ''me'', amount = 1\<rparr>]\<rparr>),
           ledger [genesis0,
                   mined1\<lparr>transactions :=
                     [\<lparr>sender = ''alice'', recipient = ''bob'', amount = 5\<rparr>,
                      \<lparr>sender = ''0'', recipient = ''me'', amount = 1\<rparr>]\<rparr>] {}) \<and>
   index (mined1\<lparr>transactions :=
                  [\<lparr>sender = ''alice'', recipient = ''bob'', amount = 5\<rparr>,
                   \<lparr>sender = ''0'', recipient = ''me'', amount = 1\<rparr>]\<rparr>) = 2 \<and>
   currentTransactions (ledger [genesis0,
                   mined1\<lparr>transactions :=
                     [\<lparr>sender = ''alice'', recipient = ''bob'', amount = 5\<rparr>,
                      \<lparr>sender = ''0'', recipient = ''me'', amount = 1\<rparr>]\<rparr>] {}) = []"
proof -
  let ?alice = "\<lparr>sender = ''alice'', recipient = ''bob'', amount = 5\<rparr>"
  let ?s = "\<lparr>chain = [genesis0], currentTransactions = [?alice], nodes = {}\<rparr>"
  let ?b = "mined1\<lparr>transactions := [?alice, \<lparr>sender = ''0'', recipient = ''me'', amount = 1\<rparr>]\<rparr>"
  have i: "snd (init toy_lib 0) = ledger [genesis0] {}"
    by (simp add: init_eq ledger_def genesis0_def)
  have t: "new_transaction ''alice'' ''bob'' 5 (ledger [genesis0] {}) = (Inr 2, ?s)"
    by (simp add: new_transaction_def last_block_def ledger_def Let_def genesis0_def)
  have m: "mine toy_lib ''me'' 1 ?s = Some (Inr ?b, ledger [genesis0, ?b] {})"
    using toy_mine_pool [of "[?alice]" "{}"] by simp
  have v: "chain ?s \<noteq> [] \<and> (0::int) \<le> 10 \<and>
           valid_proof toy_lib (proof' (last (chain ?s))) 10 (hash toy_lib (last (chain ?s)))"
    by (simp add: toy_genesis_hash toy_valid_proof)
       (simp add: genesis0_def str_int_def str_nat.simps digit_char_def)
  from mine_drains_pool [of toy_lib "''me''" 1 ?s ?b "ledger [genesis0, ?b] {}" 10 0 ?b
      "ledger [genesis0, ?b] {}"] i t m v
  show ?thesis by simp
qed

text \<open>
  C3, as stated, fails: with an empty node set, \<open>deregister_node\<close> of the malformed
  address \<open>""\<close> returns without \<open>ValueError\<close> (the guard on the empty set comes before the
  address is parsed), and with the node set \<open>{"192.168.0.10:5005"}\<close>, \<open>deregister_node\<close>
  of the well-formed non-member \<open>"http://192.168.0.11:5005"\<close> raises \<open>KeyError\<close>.
\<close>

theorem deregister_node_claim_fails:
  "urlparse_http '''' = Inr \<lparr>netloc = '''', path = ''''\<rparr> \<and>
   deregister_node urlparse_http '''' (ledger [genesis0] {}) = (Inr (), ledger [genesis0] {}) \<and>
   urlparse_http ''http://192.168.0.11:5005'' = Inr \<lparr>netloc = ''192.168.0.11:5005'', path = ''''\<rparr> \<and>
   ''192.168.0.11:5005'' \<notin> nodes (ledger [genesis0] {''192.168.0.10:5005''}) \<and>
   deregister_node urlparse_http ''http://192.168.0.11:5005'' (ledger [genesis0] {''192.168.0.10:5005''}) =
     (Inl KeyError, ledger [genesis0] {''192.168.0.10:5005''})"
  by (simp add: deregister_node_def nodes_remove_def urlparse_http_def url_cut_def ledger_def)

text \<open>
  C3, amended. Deregistering when the node set is empty is a no-op that raises no error
  and leaves the ledger unchanged, for every address, a malformed one included; when the
  node set is not empty, deregistering a malformed address (neither network location nor
  path) raises \<open>ValueError\<close> and leaves the ledger unchanged.
\<close>

theorem deregister_node_empty_guard:
  "(nodes s = {} \<longrightarrow> deregister_node urlparse address s = (Inr (), s)) \<and>
   (nodes s \<noteq> {} \<and> urlparse address = Inr p \<and> netloc p = [] \<and> path p = [] \<longrightarrow>
      deregister_node urlparse address s = (Inl ValueError, s))"
  by (simp add: deregister_node_def)

theorem deregister_node_empty_guard_witness:
  "nodes (ledger [genesis0] {}) = {} \<and>
   deregister_node urlparse_http '''' (ledger [genesis0] {}) = (Inr (), ledger [genesis0] {}) \<and>
   nodes (ledger [genesis0] {''192.168.0.10:5005''}) \<noteq> {} \<and>
   urlparse_http '''' = Inr \<lparr>netloc = [], path = []\<rparr> \<and>
   deregister_node urlparse_http '''' (ledger [genesis0] {''192.168.0.10:5005''}) =
     (Inl ValueError, ledger [genesis0] {''192.168.0.10:5005''})"
  using deregister_node_empty_guard [of "ledger [genesis0] {}" urlparse_http "''''" "\<lparr>netloc = [], path = []\<rparr>"]
    deregister_node_empty_guard [of "ledger [genesis0] {''192.168.0.10:5005''}" urlparse_http "''''"
      "\<lparr>netloc = [], path = []\<rparr>"]
  by (simp add: ledger_def urlparse_http_def url_cut_def)

text \<open>
  C9, as stated, fails for an address whose normalised form is already a member: from the
  node set \<open>{"192.168.0.10:5005"}\<close>, registering \<open>"http://192.168.0.10:5005"\<close> changes
  nothing and deregistering it then leaves the empty set, not the prior one.
\<close>

theorem register_deregister_claim_fails:
  "normal_form urlparse_http ''http://192.168.0.10:5005'' = Some ''192.168.0.10:5005'' \<and>
   register_node urlparse_http ''http://192.168.0.10:5005'' (ledger [genesis0] {''192.168.0.10:5005''}) =
     (Inr (), ledger [genesis0] {''192.168.0.10:5005''}) \<and>
   deregister_node urlparse_http ''http://192.168.0.10:5005'' (ledger [genesis0] {''192.168.0.10:5005''}) =
     (Inr (), ledger [genesis0] {}) \<and>
   nodes (ledger [genesis0] {}) \<noteq> nodes (ledger [genesis0] {''192.168.0.10:5005''})"
  by (simp add: register_node_def deregister_node_def nodes_remove_def normal_form_def
      urlparse_http_def url_cut_def ledger_def)

text \<open>
  C9, amended. For every ledger and every well-formed address with normalised form \<open>n\<close>:
  \<open>register_node\<close> returns with \<open>n\<close> inserted; if \<open>n\<close> was not a member before,
  \<open>deregister_node\<close> of the same address then returns the ledger to its prior state (if it
  was, \<open>n\<close> is removed); and a second \<open>register_node\<close> of the same address changes
  nothing, so the set holds \<open>n\<close> once.
\<close>

theorem register_deregister_roundtrip:
  assumes "normal_form urlparse address = Some n"
  shows "register_node urlparse address s = (Inr (), s\<lparr>nodes := insert n (nodes s)\<rparr>) \<and>
         (n \<notin> nodes s \<longrightarrow>
            deregister_node urlparse address (s\<lparr>nodes := insert n (nodes s)\<rparr>) = (Inr (), s)) \<and>
         (n \<in> nodes s \<longrightarrow>
            deregister_node urlparse address (s\<lparr>nodes := insert n (nodes s)\<rparr>) =
              (Inr (), s\<lparr>nodes := nodes s - {n}\<rparr>)) \<and>
         register_node urlparse address (s\<lparr>nodes := insert n (nodes s)\<rparr>) =
           (Inr (), s\<lparr>nodes := insert n (nodes s)\<rparr>)"
proof -
  let ?s1 = "s\<lparr>nodes := insert n (nodes s)\<rparr>"
  have ne: "nodes ?s1 \<noteq> {}" by simp
  have d: "deregister_node urlparse address ?s1 = (Inr (), s\<lparr>nodes := nodes s - {n}\<rparr>)"
    using assms by (simp add: deregister_node_normal_form [OF ne] nodes_remove_def)
  have "s\<lparr>nodes := nodes s - {n}\<rparr> = s" if "n \<notin> nodes s"
    using that by simp
  with d show ?thesis
    using assms by (auto simp add: register_node_normal_form)
qed

theorem register_deregister_roundtrip_witness:
  "normal_form urlparse_http ''192.168.0.10:5005'' = Some ''192.168.0.10:5005'' \<and>
   ''192.168.0.10:5005'' \<notin> nodes (ledger [genesis0] {''192.168.0.11:5005''}) \<and>
   register_node urlparse_http ''192.168.0.10:5005'' (ledger [genesis0] {''192.168.0.11:5005''}) =
     (Inr (), ledger [genesis0] {''192.168.0.10:5005'', ''192.168.0.11:5005''}) \<and>
   deregister_node urlparse_http ''192.168.0.10:5005''
       (ledger [genesis0] {''192.168.0.10:5005'', ''192.168.0.11:5005''}) =
     (Inr (), ledger [genesis0] {''192.168.0.11:5005''}) \<and>
   register_node urlparse_http ''192.168.0.10:5005''
       (ledger [genesis0] {''192.168.0.10:5005'', ''192.168.0.11:5005''}) =
     (Inr (), ledger [genesis0] {''192.168.0.10:5005'', ''192.168.0.11:5005''})"
proof -
  have n: "normal_form urlparse_http ''192.168.0.10:5005'' = Some ''192.168.0.10:5005''"
    by (simp add: normal_form_def urlparse_http_def url_cut_def)
  from register_deregister_roundtrip [OF n, of "ledger [genesis0] {''192.168.0.11:5005''}"] n
  show ?thesis by (simp add: ledger_def)
qed

text \<open>
  C2, as stated, fails: the length compared is the one the peer reports, not the length
  of the chain it sends. With the local chain of two blocks and a peer that answers 200
  with reported length 3 and the single genesis block (valid, since it has no pair),
  \<open>resolve_conflicts\<close> replaces the local chain by a chain of one block: the chain gets
  shorter.
\<close>

theorem resolve_conflicts_claim_fails:
  "resolve_conflicts toy_lib
     (\<lambda>url. if url = ''http://192.168.0.10:5005/chain'' then Inr (Response 200 3 [genesis0])
            else Inl RequestException)
     [''192.168.0.10:5005''] (ledger [genesis0, mined1] {''192.168.0.10:5005''}) =
     (Inr True, ledger [genesis0] {''192.168.0.10:5005''}) \<and>
   length (chain (ledger [genesis0] {''192.168.0.10:5005''})) <
     length (chain (ledger [genesis0, mined1] {''192.168.0.10:5005''}))"
  by (simp add: resolve_conflicts_def chain_url_def ledger_def valid_chain_single)

text \<open>
  C2, amended. Let \<open>neighbors\<close> list the node set. When \<open>resolve_conflicts\<close> returns, it
  has replaced the local chain if and only if some peer qualifies: its fetch returned
  status 200, the length it reports is greater than the length of the local chain before
  the call, and \<open>valid_chain\<close> returns \<open>True\<close> on the chain it sends. Otherwise the ledger
  is untouched, as it is when the resolution ends with an exception. The new chain is the
  chain of such a peer, and it is longer than the old one whenever the peer's reported
  length is the length of the chain it sends. An append by \<open>new_block\<close> makes the chain
  longer by exactly 1.
\<close>

theorem resolve_conflicts_replaces:
  assumes "set neighbors = nodes s"
  shows "(resolve_conflicts L get neighbors s = (Inr replaced, s') \<longrightarrow>
            replaced = (\<exists>node\<in>nodes s. qualifies L get (int (length (chain s))) node) \<and>
            (\<not> replaced \<longrightarrow> s' = s) \<and>
            (replaced \<longrightarrow>
               (\<exists>node\<in>nodes s. \<exists>r. get (chain_url node) = Inr r \<and> status_code r = 200 \<and>
                  int (length (chain s)) < json_length r \<and>
                  valid_chain L (json_chain r) = Inr True \<and>
                  s' = s\<lparr>chain := json_chain r\<rparr> \<and>
                  (json_length r = int (length (json_chain r)) \<longrightarrow>
                     length (chain s) < length (chain s'))))) \<and>
         (resolve_conflicts L get neighbors s = (Inl e, s') \<longrightarrow> s' = s) \<and>
         (new_block L now p ph s = (Inr b, s') \<longrightarrow> length (chain s') = length (chain s) + 1)"
proof (intro conjI impI)
  assume a: "resolve_conflicts L get neighbors s = (Inr replaced, s')"
  then obtain m' nc' where l: "resolve_loop L get neighbors (int (length (chain s)), None) = Inr (m', nc')"
    by (auto simp add: resolve_conflicts_def split: sum.splits)
  from resolve_loop_Inr [OF l]
  have "\<not> replaced \<and> s' = s \<and> (\<forall>node\<in>nodes s. \<not> qualifies L get (int (length (chain s))) node) \<or>
        replaced \<and> (\<exists>node\<in>nodes s. \<exists>r. get (chain_url node) = Inr r \<and> status_code r = 200 \<and>
                  int (length (chain s)) < json_length r \<and>
                  valid_chain L (json_chain r) = Inr True \<and>
                  s' = s\<lparr>chain := json_chain r\<rparr>)"
  proof
    assume "m' = int (length (chain s)) \<and> nc' = None \<and>
            (\<forall>node\<in>set neighbors. \<not> qualifies L get (int (length (chain s))) node)"
    with a l assms show ?thesis by (auto simp add: resolve_conflicts_def)
  next
    assume "int (length (chain s)) < m' \<and>
          (\<exists>node\<in>set neighbors. \<exists>r. get (chain_url node) = Inr r \<and> status_code r = 200 \<and>
              json_length r = m' \<and> valid_chain L (json_chain r) = Inr True \<and>
              nc' = Some (json_chain r))"
    then obtain node r where n: "node \<in> set neighbors" "get (chain_url node) = Inr r"
      "status_code r = 200" "json_length r = m'" "valid_chain L (json_chain r) = Inr True"
      "nc' = Some (json_chain r)" "int (length (chain s)) < m'"
      by blast
    from valid_chain_True_nonempty [OF n(5)] obtain x xs where c: "json_chain r = x # xs"
      by (cases "json_chain r") auto
    from a l n c have "replaced" "s' = s\<lparr>chain := json_chain r\<rparr>"
      by (simp_all add: resolve_conflicts_def)
    with n assms show ?thesis by blast
  qed
  then consider
      (keep) "\<not> replaced" "s' = s"
        "\<forall>node\<in>nodes s. \<not> qualifies L get (int (length (chain s))) node"
    | (swap) node r where "replaced" "node \<in> nodes s" "get (chain_url node) = Inr r"
        "status_code r = 200" "int (length (chain s)) < json_length r"
        "valid_chain L (json_chain r) = Inr True" "s' = s\<lparr>chain := json_chain r\<rparr>"
    by blast
  then have "replaced = (\<exists>node\<in>nodes s. qualifies L get (int (length (chain s))) node) \<and>
     (\<not> replaced \<longrightarrow> s' = s) \<and>
     (replaced \<longrightarrow> (\<exists>node\<in>nodes s. \<exists>r. get (chain_url node) = Inr r \<and> status_code r = 200 \<and>
                  int (length (chain s)) < json_length r \<and>
                  valid_chain L (json_chain r) = Inr True \<and>
                  s' = s\<lparr>chain := json_chain r\<rparr> \<and>
                  (json_length r = int (length (json_chain r)) \<longrightarrow>
                     length (chain s) < length (chain s'))))"
  proof cases
    case keep
    then show ?thesis by simp
  next
    case swap
    have q: "qualifies L get (int (length (chain s))) node"
      unfolding qualifies_iff using swap by blast
    have len: "json_length r = int (length (json_chain r)) \<longrightarrow>
                     length (chain s) < length (chain s')"
      using swap by simp
    from swap q len show ?thesis by blast
  qed
  then show "replaced = (\<exists>node\<in>nodes s. qualifies L get (int (length (chain s))) node)"
    "\<not> replaced \<Longrightarrow> s' = s"
    "replaced \<Longrightarrow> (\<exists>node\<in>nodes s. \<exists>r. get (chain_url node) = Inr r \<and> status_code r = 200 \<and>
                  int (length (chain s)) < json_length r \<and>
                  valid_chain L (json_chain r) = Inr True \<and>
                  s' = s\<lparr>chain := json_chain r\<rparr> \<and>
                  (json_length r = int (length (json_chain r)) \<longrightarrow>
                     length (chain s) < length (chain s')))"
    by blast+
next
  assume "resolve_conflicts L get neighbors s = (Inl e, s')"
  then show "s' = s"
    by (auto simp add: resolve_conflicts_def split: sum.splits option.splits list.splits)
next
  assume "new_block L now p ph s = (Inr b, s')"
  then show "length (chain s') = length (chain s) + 1"
    by (auto simp add: new_block_def Let_def split: sum.splits if_splits)
qed

theorem resolve_conflicts_replaces_witness:
  "set [''192.168.0.10:5005''] = nodes (ledger [genesis0] {''192.168.0.10:5005''}) \<and>
   resolve_conflicts toy_lib (network [(''192.168.0.10:5005'', Response 200 2 [genesis0, mined1])])
       [''192.168.0.10:5005''] (ledger [genesis0] {''192.168.0.10:5005''}) =
     (Inr True, ledger [genesis0, mined1] {''192.168.0.10:5005''}) \<and>
   qualifies toy_lib (network [(''192.168.0.10:5005'', Response 200 2 [genesis0, mined1])])
       (int (length (chain (ledger [genesis0] {''192.168.0.10:5005''})))) ''192.168.0.10:5005'' \<and>
   resolve_conflicts toy_lib (network []) [''192.168.0.10:5005'']
       (ledger [genesis0] {''192.168.0.10:5005''}) =
     (Inl RequestException, ledger [genesis0] {''192.168.0.10:5005''}) \<and>
   new_block toy_lib 1 10 (PyStr ''ffff1,100'') (ledger [genesis0] {''192.168.0.10:5005''}) =
     (Inr (mined1\<lparr>transactions := []\<rparr>),
      ledger [genesis0, mined1\<lparr>transactions := []\<rparr>] {''192.168.0.10:5005''}) \<and>
   length (chain (ledger [genesis0, mined1\<lparr>transactions := []\<rparr>] {''192.168.0.10:5005''})) =
     length (chain (ledger [genesis0] {''192.168.0.10:5005''})) + 1"
proof -
  let ?p = "''192.168.0.10:5005''"
  let ?s = "ledger [genesis0] {?p}"
  let ?get = "network [(?p, Response 200 2 [genesis0, mined1])]"
  have n: "set [?p] = nodes ?s" by (simp add: ledger_def)
  have r: "resolve_conflicts toy_lib ?get [?p] ?s = (Inr True, ledger [genesis0, mined1] {?p})"
    by (simp add: resolve_conflicts_def network_def toy_valid_chain ledger_def)
  have d: "resolve_conflicts toy_lib (network []) [?p] ?s = (Inl RequestException, ?s)"
    by (simp add: resolve_conflicts_def network_def)
  have b: "new_block toy_lib 1 10 (PyStr ''ffff1,100'') ?s =
     (Inr (mined1\<lparr>transactions := []\<rparr>), ledger [genesis0, mined1\<lparr>transactions := []\<rparr>] {?p})"
    by (simp add: new_block_def ledger_def mined1_def Let_def)
  from resolve_conflicts_replaces [OF n, of toy_lib ?get True "ledger [genesis0, mined1] {?p}"
      RequestException 1 10 "PyStr ''ffff1,100''" "mined1\<lparr>transactions := []\<rparr>"] r b
  have q: "qualifies toy_lib ?get (int (length (chain ?s))) ?p"
    by (simp add: ledger_def)
  from resolve_conflicts_replaces [OF n, of toy_lib "network []" False ?s
      RequestException 1 10 "PyStr ''ffff1,100''" "mined1\<lparr>transactions := []\<rparr>"] d
  have "snd (resolve_conflicts toy_lib (network []) [?p] ?s) = ?s"
    by simp
  with q n r d b show ?thesis by (simp add: ledger_def)
qed

text \<open>
  C4, as stated, fails for a network error: \<open>requests.get\<close> raises, nothing catches the
  exception, and it ends \<open>resolve_conflicts\<close>. With one peer unreachable and another
  holding a longer valid chain, the call ends with the exception in either order of the
  two peers, and the local chain stays; with the reachable peer alone the chain is
  replaced.
\<close>

theorem resolve_conflicts_unreachable_claim_fails:
  "resolve_conflicts toy_lib (network [(''192.168.0.11:5005'', Response 200 2 [genesis0, mined1])])
       [''192.168.0.10:5005'', ''192.168.0.11:5005'']
       (ledger [genesis0] {''192.168.0.10:5005'', ''192.168.0.11:5005''}) =
     (Inl RequestException, ledger [genesis0] {''192.168.0.10:5005'', ''192.168.0.11:5005''}) \<and>
   resolve_conflicts toy_lib (network [(''192.168.0.11:5005'', Response 200 2 [genesis0, mined1])])
       [''192.168.0.11:5005'', ''192.168.0.10:5005'']
       (ledger [genesis0] {''192.168.0.10:5005'', ''192.168.0.11:5005''}) =
     (Inl RequestException, ledger [genesis0] {''192.168.0.10:5005'', ''192.168.0.11:5005''}) \<and>
   resolve_conflicts toy_lib (network [(''192.168.0.11:5005'', Response 200 2 [genesis0, mined1])])
       [''192.168.0.11:5005''] (ledger [genesis0] {''192.168.0.11:5005''}) =
     (Inr True, ledger [genesis0, mined1] {''192.168.0.11:5005''})"
  by (simp add: resolve_conflicts_def network_def chain_url_def toy_valid_chain ledger_def)

text \<open>
  C4, amended. A peer whose fetch returns a response with a status other than 200 is
  skipped and the loop goes on with the remaining peers: the outcome of
  \<open>resolve_conflicts\<close> is the same as without all such peers, so such a peer neither ends
  the resolution nor reaches the caller as an error. A peer whose fetch raises (a network
  error) is not skipped: the loop ends there with that exception, and whenever such a peer
  is among the neighbors the resolution ends with an exception and the ledger unchanged.
\<close>

theorem resolve_conflicts_skips_non_success:
  "resolve_conflicts L get (filter (\<lambda>n. \<not> non_success get n) neighbors) s =
     resolve_conflicts L get neighbors s \<and>
   (non_success get node \<longrightarrow>
      resolve_loop L get (node # rest) acc = resolve_loop L get rest acc \<and>
      resolve_conflicts L get (node # rest) s = resolve_conflicts L get rest s) \<and>
   (get (chain_url node) = Inl e \<longrightarrow>
      resolve_loop L get (node # rest) acc = Inl e \<and>
      resolve_conflicts L get (node # rest) s = (Inl e, s)) \<and>
   (node \<in> set neighbors \<and> get (chain_url node) = Inl e \<longrightarrow>
      (\<exists>e'. resolve_conflicts L get neighbors s = (Inl e', s)))"
proof (intro conjI impI)
  show "resolve_conflicts L get (filter (\<lambda>n. \<not> non_success get n) neighbors) s =
     resolve_conflicts L get neighbors s"
    by (simp add: resolve_conflicts_def resolve_loop_filter)
next
  assume "non_success get node"
  then show "resolve_loop L get (node # rest) acc = resolve_loop L get rest acc"
    "resolve_conflicts L get (node # rest) s = resolve_conflicts L get rest s"
    by (simp_all add: resolve_conflicts_def resolve_loop_skip del: resolve_loop.simps)
next
  assume "get (chain_url node) = Inl e"
  then show "resolve_loop L get (node # rest) acc = Inl e"
    "resolve_conflicts L get (node # rest) s = (Inl e, s)"
    by (simp_all add: resolve_conflicts_def resolve_loop_raise del: resolve_loop.simps)
next
  assume "node \<in> set neighbors \<and> get (chain_url node) = Inl e"
  then obtain e' where
    "resolve_loop L get neighbors (int (length (chain s)), None) = Inl e'"
    using resolve_loop_unreachable by blast
  then show "\<exists>e'. resolve_conflicts L get neighbors s = (Inl e', s)"
    by (simp add: resolve_conflicts_def)
qed

theorem resolve_conflicts_skips_non_success_witness:
  "non_success (network [(''192.168.0.10:5005'', Response 503 0 []),
                         (''192.168.0.11:5005'', Response 200 2 [genesis0, mined1])])
     ''192.168.0.10:5005'' \<and>
   resolve_conflicts toy_lib
       (network [(''192.168.0.10:5005'', Response 503 0 []),
                 (''192.168.0.11:5005'', Response 200 2 [genesis0, mined1])])
       [''192.168.0.10:5005'', ''192.168.0.11:5005'']
       (ledger [genesis0] {''192.168.0.10:5005'', ''192.168.0.11:5005''}) =
     (Inr True, ledger [genesis0, mined1] {''192.168.0.10:5005'', ''192.168.0.11:5005''}) \<and>
   ''192.168.0.12:5005'' \<in> set [''192.168.0.11:5005'', ''192.168.0.12:5005''] \<and>
   network [(''192.168.0.10:5005'', Response 503 0 []),
            (''192.168.0.11:5005'', Response 200 2 [genesis0, mined1])]
     (chain_url ''192.168.0.12:5005'') = Inl RequestException \<and>
   (\<exists>e'. resolve_conflicts toy_lib
       (network [(''192.168.0.10:5005'', Response 503 0 []),
                 (''192.168.0.11:5005'', Response 200 2 [genesis0, mined1])])
       [''192.168.0.11:5005'', ''192.168.0.12:5005'']
       (ledger [genesis0] {''192.168.0.10:5005'', ''192.168.0.11:5005''}) =
     (Inl e', ledger [genesis0] {''192.168.0.10:5005'', ''192.168.0.11:5005''}))"
proof -
  let ?get = "network [(''192.168.0.10:5005'', Response 503 0 []),
                 (''192.168.0.11:5005'', Response 200 2 [genesis0, mined1])]"
  let ?s = "ledger [genesis0] {''192.168.0.10:5005'', ''192.168.0.11:5005''}"
  have ns: "non_success ?get ''192.168.0.10:5005''"
    by (simp add: non_success_def network_def)
  have dn: "?get (chain_url ''192.168.0.12:5005'') = Inl RequestException"
    by (simp add: network_def chain_url_def)
  have r: "resolve_conflicts toy_lib ?get [''192.168.0.11:5005''] ?s =
      (Inr True, ledger [genesis0, mined1] {''192.168.0.10:5005'', ''192.168.0.11:5005''})"
    by (simp add: resolve_conflicts_def network_def chain_url_def toy_valid_chain ledger_def)
  from resolve_conflicts_skips_non_success [of toy_lib ?get
      "[''192.168.0.11:5005'', ''192.168.0.12:5005'']" ?s "''192.168.0.12:5005''" "[]"
      "(1, None)" RequestException]
    resolve_conflicts_skips_non_success [of toy_lib ?get
      "[''192.168.0.11:5005'']" ?s "''192.168.0.10:5005''" "[''192.168.0.11:5005'']"
      "(1, None)" RequestException]
    ns dn r
  show ?thesis by simp
qed

end
